theory Spec2Isabelle
  imports Main "HOL-Library.Sublist"
begin

section \<open>The module base of polybar: \<^verbatim>\<open>include/modules/meta/base.inl\<close>\<close>

text \<open>
  The development embeds the action router, the lifecycle operations, the output cache and
  the template renderer of \<^verbatim>\<open>module<Impl>\<close>. Sizes (\<^verbatim>\<open>size_t\<close>) are natural numbers: the
  only arithmetic on them is \<^verbatim>\<open>end -= start\<close> with \<^verbatim>\<open>start \<le> end\<close> and \<^verbatim>\<open>end + 1\<close> on an index
  of a string, so nothing wraps around.
\<close>

subsection \<open>Strings\<close>

text \<open>\<^verbatim>\<open>std::string::find(char, pos)\<close>: the first index at or after \<^verbatim>\<open>pos\<close> that holds the
  character, \<^verbatim>\<open>npos\<close> is \<open>None\<close>.\<close>

primrec find_first :: "char \<Rightarrow> string \<Rightarrow> nat option" where
  "find_first c [] = None"
| "find_first c (x # xs) = (if x = c then Some 0 else map_option Suc (find_first c xs))"

definition str_find :: "string \<Rightarrow> char \<Rightarrow> nat \<Rightarrow> nat option" where
  "str_find s c pos = map_option (\<lambda>i. pos + i) (find_first c (drop pos s))"

text \<open>\<^verbatim>\<open>substr(pos, n)\<close> and \<^verbatim>\<open>erase(pos, n)\<close>; the renderer calls both with \<^verbatim>\<open>pos = 0\<close>, which
  is always in range.\<close>

definition substr :: "string \<Rightarrow> nat \<Rightarrow> nat \<Rightarrow> string" where
  "substr s pos n = take n (drop pos s)"

definition erase :: "string \<Rightarrow> nat \<Rightarrow> nat \<Rightarrow> string" where
  "erase s pos n = take pos s @ drop (pos + n) s"

text \<open>Modelled from the spec: \<^verbatim>\<open>string_util::ltrim\<close> (utils/string.hpp is not part of the
  sources at hand). The renderer "strips leading whitespace/space characters" of the literal
  text; the call passes the character to strip, a blank.\<close>

definition ltrim :: "string \<Rightarrow> char \<Rightarrow> string" where
  "ltrim s c = dropWhile (\<lambda>x. x = c) s"

subsection \<open>The builder\<close>

text \<open>
  The renderer drives the builder through \<^verbatim>\<open>node\<close>, \<^verbatim>\<open>space\<close>, \<^verbatim>\<open>remove_trailing_space\<close>,
  \<^verbatim>\<open>append\<close> and \<^verbatim>\<open>control\<close>, and it hands the builder to \<^verbatim>\<open>Impl::build\<close> once for every tag.
  The state of the builder is the sequence of these calls since its last \<^verbatim>\<open>flush\<close>.
\<close>

datatype controltag = R

datatype builder_call =
    Node string
  | Space nat
  | Remove_trailing_space nat
  | Append string
  | Control controltag
  | Impl_build string

type_synonym builder = "builder_call list"

text \<open>Modelled from the spec: the text that the builder (components/builder.hpp, not part of
  the sources at hand) accumulates. \<^verbatim>\<open>node\<close> and \<^verbatim>\<open>append\<close> add their text, \<^verbatim>\<open>space(n)\<close> adds a
  spacer of \<open>n\<close> blanks, \<^verbatim>\<open>remove_trailing_space(min_gap)\<close> removes trailing blanks "down to the
  configured minimum gap", a tag that builds "materializes output into the builder" and one that
  fails adds nothing, \<^verbatim>\<open>control\<close> adds the marker of the control tag.\<close>

definition trailing_blanks :: "string \<Rightarrow> nat" where
  "trailing_blanks s = length (takeWhile (\<lambda>x. x = CHR '' '') (rev s))"

definition remove_trailing_space :: "nat \<Rightarrow> string \<Rightarrow> string" where
  "remove_trailing_space min_gap s = take (length s - (trailing_blanks s - min_gap)) s"

fun builder_apply :: "(string \<Rightarrow> string option) \<Rightarrow> (controltag \<Rightarrow> string) \<Rightarrow> builder_call \<Rightarrow> string \<Rightarrow> string" where
  "builder_apply bt ct (Node t) s = s @ t"
| "builder_apply bt ct (Space n) s = s @ replicate n (CHR '' '')"
| "builder_apply bt ct (Remove_trailing_space g) s = remove_trailing_space g s"
| "builder_apply bt ct (Append t) s = s @ t"
| "builder_apply bt ct (Control c) s = s @ ct c"
| "builder_apply bt ct (Impl_build tag) s = s @ (case bt tag of None \<Rightarrow> [] | Some t \<Rightarrow> t)"

definition builder_output :: "(string \<Rightarrow> string option) \<Rightarrow> (controltag \<Rightarrow> string) \<Rightarrow> builder \<Rightarrow> string" where
  "builder_output bt ct b = foldl (\<lambda>s c. builder_apply bt ct c s) [] b"

subsection \<open>The template renderer: the loop of \<^verbatim>\<open>get_output\<close>\<close>

record format =
  "value" :: string
  spacing :: nat

text \<open>The locals of \<^verbatim>\<open>get_output\<close>; \<open>value'\<close> is the local copy \<^verbatim>\<open>value\<close> of the format's
  template, consumed from the left.\<close>

record locals =
  no_tag_built :: bool
  fake_no_tag_built :: bool
  tag_built :: bool
  value' :: string

text \<open>The loop condition: \<^verbatim>\<open>start\<close> is the first \<^verbatim>\<open><\<close>, \<^verbatim>\<open>end\<close> the first \<^verbatim>\<open>>\<close> from there on.\<close>

definition get_output_cond :: "string \<Rightarrow> (nat \<times> nat) option" where
  "get_output_cond v =
     (case str_find v (CHR ''<'') 0 of
        None \<Rightarrow> None
      | Some start \<Rightarrow>
          (case str_find v (CHR ''>'') start of
             None \<Rightarrow> None
           | Some end \<Rightarrow> Some (start, end)))"

text \<open>The literal text before the tag (\<^verbatim>\<open>if (start > 0) { ... }\<close>).\<close>

definition get_output_literal :: "nat \<Rightarrow> locals \<times> builder \<Rightarrow> locals \<times> builder" where
  "get_output_literal start lb =
     (let (l, m_builder) = lb in
      (let (l1, b1) =
         (if no_tag_built l then
            (let trimmed = ltrim (substr (value' l) 0 start) (CHR '' '') in
             if trimmed \<noteq> [] then (l\<lparr>fake_no_tag_built := False\<rparr>, m_builder @ [Node trimmed])
             else (l, m_builder))
          else (l, m_builder @ [Node (substr (value' l) 0 start)]))
       in (l1\<lparr>value' := erase (value' l1) 0 start\<rparr>, b1)))"

text \<open>The tag itself (\<^verbatim>\<open>else if (tag[0] == '<' && tag[tag.size() - 1] == '>') { ... }\<close>); \<open>build\<close>
  is the result of \<^verbatim>\<open>Impl::build\<close> on the tag.\<close>

definition get_output_tag :: "(string \<Rightarrow> bool) \<Rightarrow> format \<Rightarrow> string \<Rightarrow> locals \<times> builder \<Rightarrow> locals \<times> builder" where
  "get_output_tag build fmt tag lb =
     (let (l, m_builder) = lb;
          mingap = max 1 (spacing fmt);
          (l1, b1) =
            (if \<not> no_tag_built l then (l, m_builder @ [Space (spacing fmt)])
             else if fake_no_tag_built l then (l\<lparr>no_tag_built := False\<rparr>, m_builder)
             else (l, m_builder));
          l2 = l1\<lparr>tag_built := build tag\<rparr>;
          b2 = b1 @ [Impl_build tag];
          b3 = (if \<not> tag_built l2 \<and> \<not> no_tag_built l2 then b2 @ [Remove_trailing_space mingap] else b2);
          l3 = (if tag_built l2 then l2\<lparr>no_tag_built := False\<rparr> else l2)
      in (l3, b3))"

text \<open>One iteration of the loop. The \<^verbatim>\<open>continue\<close> on an empty tag leaves the loop body without
  erasing anything more.\<close>

definition get_output_body :: "(string \<Rightarrow> bool) \<Rightarrow> format \<Rightarrow> nat \<Rightarrow> nat \<Rightarrow> locals \<times> builder \<Rightarrow> locals \<times> builder" where
  "get_output_body build fmt start0 end0 lb =
     (let (lb1, start, end) =
            (if start0 > 0 then (get_output_literal start0 lb, 0, end0 - start0)
             else (lb, start0, end0));
          tag = substr (value' (fst lb1)) start (end + 1)
      in if tag = [] then lb1
         else
           (let (l2, b2) =
                  (if hd tag = CHR ''<'' \<and> last tag = CHR ''>'' then get_output_tag build fmt tag lb1
                   else lb1)
            in (l2\<lparr>value' := erase (value' l2) 0 (length tag)\<rparr>, b2)))"

text \<open>The loop erases at least the tag in every iteration, so it ends.\<close>

lemma find_first_Some:
  "find_first c s = Some i \<Longrightarrow> i < length s \<and> s ! i = c \<and> c \<notin> set (take i s)"
  by (induction s arbitrary: i) (auto split: if_splits)

lemma find_first_None: "find_first c s = None \<longleftrightarrow> c \<notin> set s"
  by (induction s) auto

lemma str_find_Some: "str_find s c pos = Some i \<Longrightarrow> pos \<le> i \<and> i < length s \<and> s ! i = c"
  unfolding str_find_def by (auto dest!: find_first_Some)

lemma get_output_cond_Some:
  "get_output_cond v = Some (start, end) \<Longrightarrow> start \<le> end \<and> end < length v"
  unfolding get_output_cond_def by (auto split: option.splits dest!: str_find_Some)

lemma value_literal: "value' (fst (get_output_literal start lb)) = drop start (value' (fst lb))"
  unfolding get_output_literal_def erase_def
  by (simp add: Let_def case_prod_beta)

lemma value_tag: "value' (fst (get_output_tag build fmt tag lb)) = value' (fst lb)"
  unfolding get_output_tag_def
  by (simp add: Let_def case_prod_beta)

lemma get_output_body_decreases:
  assumes "start \<le> end" "end < length (value' (fst lb))"
  shows "length (value' (fst (get_output_body build fmt start end lb))) < length (value' (fst lb))"
  using assms unfolding get_output_body_def substr_def erase_def
  by (auto simp: Let_def case_prod_beta value_literal value_tag)

function get_output_loop :: "(string \<Rightarrow> bool) \<Rightarrow> format \<Rightarrow> locals \<times> builder \<Rightarrow> locals \<times> builder" where
  "get_output_loop build fmt lb =
     (case get_output_cond (value' (fst lb)) of
        None \<Rightarrow> lb
      | Some (start, end) \<Rightarrow> get_output_loop build fmt (get_output_body build fmt start end lb))"
  by pat_completeness auto
termination
  by (relation "measure (\<lambda>(build, fmt, lb). length (value' (fst lb)))")
     (auto dest!: get_output_cond_Some intro: get_output_body_decreases)

declare get_output_loop.simps [simp del]

text \<open>The locals at the start of a render.\<close>

definition get_output_init :: "format \<Rightarrow> locals" where
  "get_output_init fmt =
     \<lparr>no_tag_built = True, fake_no_tag_built = False, tag_built = False, value' = value fmt\<rparr>"

text \<open>The calls that one render makes on a builder that holds \<open>m_builder\<close>: the loop, then the
  rest of the template (\<^verbatim>\<open>if (!value.empty()) m_builder->append(value)\<close>).\<close>

definition get_output_calls :: "(string \<Rightarrow> bool) \<Rightarrow> format \<Rightarrow> builder \<Rightarrow> builder" where
  "get_output_calls build fmt m_builder =
     (let (l, b) = get_output_loop build fmt (get_output_init fmt, m_builder)
      in if value' l \<noteq> [] then b @ [Append (value' l)] else b)"

subsection \<open>The calls of a render, span by span\<close>

text \<open>What one iteration of the loop asks of the builder: for the literal text before a tag
  (trimmed on the left while no tag has been built, and not sent when nothing is left), and
  for the tag, given the value of \<^verbatim>\<open>no_tag_built\<close> when the iteration starts. \<open>spans_calls\<close>
  strings the iterations together; the lemmas below show that the loop makes exactly these
  calls.\<close>

definition literal_calls :: "bool \<Rightarrow> string \<Rightarrow> builder" where
  "literal_calls ntb lit =
     (if lit = [] then []
      else if ntb then (if ltrim lit (CHR '' '') = [] then [] else [Node (ltrim lit (CHR '' ''))])
      else [Node lit])"

definition tag_calls :: "(string \<Rightarrow> bool) \<Rightarrow> format \<Rightarrow> bool \<Rightarrow> string \<Rightarrow> builder" where
  "tag_calls bld fmt ntb tag =
     (if ntb then [] else [Space (spacing fmt)]) @ [Impl_build tag] @
     (if \<not> bld tag \<and> \<not> ntb then [Remove_trailing_space (max 1 (spacing fmt))] else [])"

fun spans_calls :: "(string \<Rightarrow> bool) \<Rightarrow> format \<Rightarrow> bool \<Rightarrow> (string \<times> string) list \<Rightarrow> builder" where
  "spans_calls bld fmt ntb [] = []"
| "spans_calls bld fmt ntb ((lit, tag) # spans) =
     literal_calls ntb lit @ tag_calls bld fmt ntb tag @ spans_calls bld fmt (ntb \<and> \<not> bld tag) spans"

text \<open>Some tag among the calls has been built.\<close>

definition succeeded :: "(string \<Rightarrow> bool) \<Rightarrow> builder \<Rightarrow> bool" where
  "succeeded bld calls = list_ex (\<lambda>c. case c of Impl_build tag \<Rightarrow> bld tag | _ \<Rightarrow> False) calls"



subsection \<open>The module\<close>

text \<open>What the module does to its collaborators, in the order it does it: log lines, signals,
  locks taken, hooks of the implementation that it calls.\<close>

datatype mutex = M_buildlock | M_updatelock

datatype event =
    Log_info string
  | Log_err string
  | Log_notice string
  | Log_trace string
  | Lock "mutex list"
  | Wakeup
  | Teardown
  | Emit_check_state
  | Emit_notify_change
  | Get_output

text \<open>The fields of \<^verbatim>\<open>module<Impl>\<close> that the operations below read or write; \<open>impl\<close> is the
  state that the implementation \<^verbatim>\<open>Impl\<close> adds, \<open>events\<close> the effects so far.\<close>

record 'i module =
  m_name :: string
  m_enabled :: bool
  m_changed :: bool
  m_cache :: string
  m_builder :: builder
  impl :: 'i
  events :: "event list"

text \<open>What \<^verbatim>\<open>Impl\<close> and the collaborators of the module supply: \<^verbatim>\<open>Impl::build\<close> (the text it
  puts into the builder, or \<open>None\<close> when it returns false), \<^verbatim>\<open>Impl::get_format\<close>,
  \<^verbatim>\<open>Impl::teardown\<close>, the formats of \<^verbatim>\<open>m_formatter\<close>, \<^verbatim>\<open>format->decorate\<close>, and the marker that
  the builder writes for a control tag.\<close>

record 'i impl_ops =
  build :: "'i \<Rightarrow> string \<Rightarrow> string option"
  get_format :: "'i \<Rightarrow> string"
  teardown :: "'i \<Rightarrow> 'i"
  m_formatter :: "string \<Rightarrow> format"
  decorate :: "format \<Rightarrow> string \<Rightarrow> string"
  control :: "controltag \<Rightarrow> string"

text \<open>The boolean that \<^verbatim>\<open>Impl::build\<close> returns for a tag.\<close>

definition builds :: "(string \<Rightarrow> string option) \<Rightarrow> string \<Rightarrow> bool" where
  "builds bt tag = (bt tag \<noteq> None)"

text \<open>\<^verbatim>\<open>m_builder->flush()\<close>: "must return accumulated content and reset internal state".\<close>

definition flush :: "'i impl_ops \<Rightarrow> 'i module \<Rightarrow> string \<times> 'i module" where
  "flush P m = (builder_output (build P (impl m)) (control P) (m_builder m), m\<lparr>m_builder := []\<rparr>)"

definition get_output :: "'i impl_ops \<Rightarrow> 'i module \<Rightarrow> string \<times> 'i module" where
  "get_output P m =
     (let m1 = m\<lparr>events := events m @ [Get_output, Lock [M_buildlock]]\<rparr>;
          format_name = get_format P (impl m1);
          fmt = m_formatter P format_name;
          m2 = m1\<lparr>m_builder := get_output_calls (builds (build P (impl m1))) fmt (m_builder m1)\<rparr>;
          (content, m3) = flush P m2
      in (decorate P fmt content, m3))"

definition contents :: "'i impl_ops \<Rightarrow> 'i module \<Rightarrow> string \<times> 'i module" where
  "contents P m =
     (if m_changed m then
        (let m1 = m\<lparr>events := events m @ [Log_info (m_name m @ '': Rebuilding cache'')]\<rparr>;
             (out, m2) = get_output P m1;
             m3 = m2\<lparr>m_cache := out\<rparr>;
             m4 = snd (flush P m3);
             m5 = (if m_cache m4 \<noteq> [] then
                     (let m' = m4\<lparr>m_builder := m_builder m4 @ [Control R]\<rparr>;
                          (r, m'') = flush P m'
                      in m''\<lparr>m_cache := m_cache m'' @ r\<rparr>)
                   else m4);
             m6 = m5\<lparr>m_changed := False\<rparr>
         in (m_cache m6, m6))
      else (m_cache m, m))"

definition broadcast :: "'i module \<Rightarrow> 'i module" where
  "broadcast m = m\<lparr>m_changed := True, events := events m @ [Emit_notify_change]\<rparr>"

definition running :: "'i module \<Rightarrow> bool" where
  "running m = m_enabled m"

definition wakeup :: "'i module \<Rightarrow> 'i module" where
  "wakeup m = m\<lparr>events := events m @ [Log_trace (m_name m @ '': Release sleep lock''), Wakeup]\<rparr>"

definition stop :: "'i impl_ops \<Rightarrow> 'i module \<Rightarrow> 'i module" where
  "stop P m =
     (if \<not> m_enabled m then m
      else
        (let m1 = m\<lparr>events := events m @ [Log_info (m_name m @ '': Stopping'')]\<rparr>;
             m2 = m1\<lparr>m_enabled := False\<rparr>;
             m3 = m2\<lparr>events := events m2 @ [Lock [M_buildlock, M_updatelock]]\<rparr>;
             m4 = wakeup m3;
             m5 = m4\<lparr>impl := teardown P (impl m4), events := events m4 @ [Teardown]\<rparr>
         in m5\<lparr>events := events m5 @ [Emit_check_state]\<rparr>))"

definition halt :: "'i impl_ops \<Rightarrow> string \<Rightarrow> 'i module \<Rightarrow> 'i module" where
  "halt P error_message m =
     stop P (m\<lparr>events := events m @
        [Log_err (m_name m @ '': '' @ error_message),
         Log_notice (''Stopping '' @ [CHR 0x27] @ m_name m @ [CHR 0x27] @ ''...'')]\<rparr>)"

subsection \<open>The action router\<close>

text \<open>An entry is the union of the two callback shapes with its tag \<^verbatim>\<open>with_data\<close>. A callback
  is a member function of the module: it maps the module's state to a new one.\<close>

datatype 'i entry =
    Without "'i module \<Rightarrow> 'i module"
  | With "string \<Rightarrow> 'i module \<Rightarrow> 'i module"

primrec with_data :: "'i entry \<Rightarrow> bool" where
  "with_data (Without f) = False"
| "with_data (With g) = True"

type_synonym 'i callbacks = "string \<rightharpoonup> 'i entry"

definition register_action :: "string \<Rightarrow> ('i module \<Rightarrow> 'i module) \<Rightarrow> 'i callbacks \<Rightarrow> 'i callbacks" where
  "register_action name func callbacks = callbacks(name \<mapsto> Without func)"

definition register_action_with_data ::
  "string \<Rightarrow> (string \<Rightarrow> 'i module \<Rightarrow> 'i module) \<Rightarrow> 'i callbacks \<Rightarrow> 'i callbacks" where
  "register_action_with_data name func callbacks = callbacks(name \<mapsto> With func)"

definition has_action :: "'i callbacks \<Rightarrow> string \<Rightarrow> bool" where
  "has_action callbacks name = (callbacks name \<noteq> None)"

datatype error = Assertion_failed

text \<open>\<^verbatim>\<open>invoke\<close>: the assertion, the test for a payload that the entry does not take (its branch
  is empty in the source), then the call of the member function.\<close>

definition invoke :: "'i callbacks \<Rightarrow> string \<Rightarrow> string \<Rightarrow> 'i module \<Rightarrow> error + 'i module" where
  "invoke callbacks name data m =
     (case callbacks name of
        None \<Rightarrow> Inl Assertion_failed
      | Some e \<Rightarrow>
          (let has_data = (data \<noteq> []);
               m1 = (if has_data \<and> \<not> with_data e then m else m)
           in case e of
                With g \<Rightarrow> Inr (g data m1)
              | Without f \<Rightarrow> Inr (f m1)))"

definition input :: "'i callbacks \<Rightarrow> string \<Rightarrow> string \<Rightarrow> 'i module \<Rightarrow> error + bool \<times> 'i module" where
  "input m_router name data m =
     (if \<not> has_action m_router name then Inr (False, m)
      else
        (case invoke m_router name data m of
           Inl err \<Rightarrow> Inl err
         | Inr m1 \<Rightarrow> Inr (True, m1)))"

subsection \<open>Instances\<close>

text \<open>A module whose implementation knows the tags \<^verbatim>\<open><a>\<close> and \<^verbatim>\<open><b>\<close>, one that knows no
  tag, a callback that counts its calls, and a router that holds it.\<close>

definition tags_XY :: "string \<Rightarrow> string option" where
  "tags_XY tag = (if tag = ''<a>'' then Some ''X'' else if tag = ''<b>'' then Some ''Y'' else None)"

definition tags_none :: "string \<Rightarrow> string option" where
  "tags_none tag = None"

definition demo_format :: format where
  "demo_format = \<lparr>value = ''<a> text <b>'', spacing = 1\<rparr>"

text \<open>Formats: literal text before the first tag, two tags side by side, a tag that fails
  between two that build, and a template whose last \<^verbatim>\<open><\<close> is never closed.\<close>

definition literal_first_format :: format where
  "literal_first_format = \<lparr>value = ''x<a><b>'', spacing = 1\<rparr>"

definition adjacent_format :: format where
  "adjacent_format = \<lparr>value = ''<a><b>'', spacing = 2\<rparr>"

definition failing_format :: format where
  "failing_format = \<lparr>value = ''<a><c><b>'', spacing = 2\<rparr>"


definition demo_ops :: "nat impl_ops" where
  "demo_ops = \<lparr>build = (\<lambda>i. tags_XY), get_format = (\<lambda>i. ''format''), teardown = (\<lambda>i. i),
     m_formatter = (\<lambda>name. demo_format), decorate = (\<lambda>fmt s. s), control = (\<lambda>c. ''%{PR}'')\<rparr>"

definition demo_module :: "nat module" where
  "demo_module = \<lparr>m_name = ''module/demo'', m_enabled = True, m_changed = True, m_cache = [],
     m_builder = [], impl = 0, events = []\<rparr>"

definition demo_rendered :: "nat module" where
  "demo_rendered = demo_module\<lparr>m_changed := False, m_cache := ''X text  Y%{PR}'',
     events := [Log_info ''module/demo: Rebuilding cache'', Get_output, Lock [M_buildlock]]\<rparr>"

definition click :: "nat module \<Rightarrow> nat module" where
  "click m = m\<lparr>impl := Suc (impl m)\<rparr>"

definition scroll :: "string \<Rightarrow> nat module \<Rightarrow> nat module" where
  "scroll data m = m\<lparr>impl := impl m + length data\<rparr>"

definition demo_router :: "nat callbacks" where
  "demo_router = register_action_with_data ''scroll'' scroll (register_action ''click'' click Map.empty)"

section \<open>Properties\<close>

subsection \<open>Lifecycle\<close>

text \<open>
  Claim C7. \<^verbatim>\<open>stop()\<close> on a module whose running flag is false changes nothing: the state
  after the call is the state before it, field by field, and the state includes the record of
  effects, so no lock is taken, the teardown hook is not called and no \<^verbatim>\<open>check_state\<close> signal is
  emitted.
\<close>

theorem stop_not_running: "\<not> running m \<Longrightarrow> stop P m = m"
  by (simp add: stop_def running_def)

theorem stop_not_running_witness:
  "\<not> running (demo_module\<lparr>m_enabled := False\<rparr>) \<and>
   stop demo_ops (demo_module\<lparr>m_enabled := False\<rparr>) = demo_module\<lparr>m_enabled := False\<rparr>"
  using stop_not_running [of "demo_module\<lparr>m_enabled := False\<rparr>" demo_ops]
  by (simp add: running_def)

subsection \<open>The output cache\<close>

lemma builder_output_Nil: "builder_output bt ct [] = []"
  by (simp add: builder_output_def)

lemma builder_output_snoc:
  "builder_output bt ct (b @ [c]) = builder_apply bt ct c (builder_output bt ct b)"
  by (simp add: builder_output_def)

lemma builder_output_control: "builder_output bt ct [Control c] = ct c"
  by (simp add: builder_output_def)

lemma contents_clean: "\<not> m_changed m \<Longrightarrow> contents P m = (m_cache m, m)"
  by (simp add: contents_def)

lemma contents_result: "contents P m = (s, m') \<Longrightarrow> \<not> m_changed m' \<and> s = m_cache m'"
  by (auto simp: contents_def Let_def case_prod_beta split: if_splits)

lemma demo_calls:
  "get_output_calls (builds tags_XY) demo_format [] =
     [Impl_build ''<a>'', Node '' text '', Space 1, Impl_build ''<b>'']"
  by code_simp

lemma demo_output:
  "builder_output tags_XY ct [Impl_build ''<a>'', Node '' text '', Space 1, Impl_build ''<b>''] =
     ''X text  Y''"
  by (simp add: builder_output_def tags_XY_def)

lemma demo_contents: "contents demo_ops demo_module = (''X text  Y%{PR}'', demo_rendered)"
  by (simp add: contents_def get_output_def flush_def demo_ops_def demo_module_def demo_rendered_def
      demo_calls demo_output [unfolded One_nat_def] builder_output_control builder_output_Nil Let_def)

text \<open>
  Claim C5. Whatever the first call of \<^verbatim>\<open>contents()\<close> returns and leaves behind, a second call on
  the state it left returns the same string and the same state: the cache, the builder and the
  record of effects are those of the first call, so \<^verbatim>\<open>get_output\<close> has not run again.
\<close>

theorem contents_twice:
  assumes "contents P m = (s1, m1)"
  shows "contents P m1 = (s1, m1)"
  using contents_result [OF assms] by (simp add: contents_clean)

theorem contents_twice_witness:
  "contents demo_ops demo_module = (''X text  Y%{PR}'', demo_rendered) \<and>
   contents demo_ops demo_rendered = (''X text  Y%{PR}'', demo_rendered)"
  using contents_twice [OF demo_contents] demo_contents by simp

lemma get_output_events:
  "events (snd (get_output P m)) = events m @ [Get_output, Lock [M_buildlock]]"
  by (simp add: get_output_def flush_def Let_def)

lemma contents_dirty:
  assumes "m_changed m"
  shows "contents P m =
     (let (out, m2) = get_output P (m\<lparr>events := events m @ [Log_info (m_name m @ '': Rebuilding cache'')]\<rparr>);
          c = (if out = [] then [] else out @ control P R)
      in (c, m2\<lparr>m_cache := c, m_changed := False\<rparr>))"
  using assms
  by (simp add: contents_def get_output_def flush_def Let_def builder_output_Nil builder_output_control)

lemma demo_get_output:
  "m_builder m = [] \<Longrightarrow>
   get_output demo_ops m =
     (''X text  Y'', m\<lparr>m_builder := [], events := events m @ [Get_output, Lock [M_buildlock]]\<rparr>)"
  by (simp add: get_output_def flush_def demo_ops_def demo_calls
      demo_output [unfolded One_nat_def] Let_def)

lemma demo_ops_control: "control demo_ops c = ''%{PR}''"
  by (simp add: demo_ops_def)

text \<open>
  Claim C6. \<^verbatim>\<open>broadcast()\<close> sets \<^verbatim>\<open>m_changed\<close> and emits \<^verbatim>\<open>notify_change\<close>, and nothing else. The
  call of \<^verbatim>\<open>contents()\<close> that follows logs the rebuild, runs \<^verbatim>\<open>get_output\<close> and stores its result
  (with the reset marker after a non-empty one) as the cache, whatever the state of the module
  was before the broadcast: the record of effects grows by the signal, the log line, the call of
  \<^verbatim>\<open>get_output\<close> and its lock.
\<close>

theorem broadcast_rerenders:
  "broadcast m = m\<lparr>m_changed := True, events := events m @ [Emit_notify_change]\<rparr> \<and>
   contents P (broadcast m) =
     (let (out, m2) = get_output P
            (m\<lparr>m_changed := True,
               events := events m @ [Emit_notify_change, Log_info (m_name m @ '': Rebuilding cache'')]\<rparr>);
          c = (if out = [] then [] else out @ control P R)
      in (c, m2\<lparr>m_cache := c, m_changed := False\<rparr>)) \<and>
   events (snd (contents P (broadcast m))) =
     events m @ [Emit_notify_change, Log_info (m_name m @ '': Rebuilding cache''), Get_output,
                 Lock [M_buildlock]]"
proof -
  have d: "m_changed (broadcast m)" by (simp add: broadcast_def)
  have 1: "broadcast m = m\<lparr>m_changed := True, events := events m @ [Emit_notify_change]\<rparr>"
    by (simp add: broadcast_def)
  have 2: "contents P (broadcast m) =
     (let (out, m2) = get_output P
            (m\<lparr>m_changed := True,
               events := events m @ [Emit_notify_change, Log_info (m_name m @ '': Rebuilding cache'')]\<rparr>);
          c = (if out = [] then [] else out @ control P R)
      in (c, m2\<lparr>m_cache := c, m_changed := False\<rparr>))"
    using contents_dirty [OF d, of P] by (simp add: broadcast_def)
  have 3: "events (snd (contents P (broadcast m))) =
     events m @ [Emit_notify_change, Log_info (m_name m @ '': Rebuilding cache''), Get_output,
                 Lock [M_buildlock]]"
    unfolding 2 by (simp add: Let_def case_prod_beta get_output_events)
  from 1 2 3 show ?thesis by blast
qed

theorem broadcast_rerenders_witness:
  "contents demo_ops (broadcast demo_rendered) =
     (''X text  Y%{PR}'',
      demo_rendered\<lparr>events := events demo_rendered @
         [Emit_notify_change, Log_info ''module/demo: Rebuilding cache'', Get_output,
          Lock [M_buildlock]]\<rparr>)"
proof -
  have g: "get_output demo_ops
             (demo_rendered\<lparr>m_changed := True,
                events := events demo_rendered @
                  [Emit_notify_change, Log_info (m_name demo_rendered @ '': Rebuilding cache'')]\<rparr>) =
           (''X text  Y'',
            demo_rendered\<lparr>m_changed := True, m_builder := [],
                events := events demo_rendered @
                  [Emit_notify_change, Log_info (m_name demo_rendered @ '': Rebuilding cache''),
                   Get_output, Lock [M_buildlock]]\<rparr>)"
    by (subst demo_get_output) (simp_all add: demo_rendered_def demo_module_def)
  from broadcast_rerenders [of demo_rendered demo_ops]
  have "contents demo_ops (broadcast demo_rendered) =
     (let (out, m2) = get_output demo_ops
            (demo_rendered\<lparr>m_changed := True,
               events := events demo_rendered @
                 [Emit_notify_change, Log_info (m_name demo_rendered @ '': Rebuilding cache'')]\<rparr>);
          c = (if out = [] then [] else out @ control demo_ops R)
      in (c, m2\<lparr>m_cache := c, m_changed := False\<rparr>))"
    by blast
  then show ?thesis
    unfolding g by (simp add: demo_ops_control demo_rendered_def demo_module_def Let_def)
qed

subsection \<open>Actions\<close>

lemma demo_router_simps:
  "demo_router ''click'' = Some (Without click)"
  "demo_router ''scroll'' = Some (With scroll)"
  "demo_router ''zoom'' = None"
  by (simp_all add: demo_router_def register_action_def register_action_with_data_def)

text \<open>
  Claim C9. \<^verbatim>\<open>input\<close> on a name that the router does not hold returns false and leaves the module
  as it was; on a name registered without data it returns true and the module after the
  no-argument callback; on a name registered with data, true and the module after the callback
  applied to the payload. It never ends in the failed assertion of \<^verbatim>\<open>invoke\<close>.
\<close>

theorem input_dispatch:
  "(\<not> has_action m_router name \<longrightarrow> input m_router name data m = Inr (False, m)) \<and>
   (\<forall>f. m_router name = Some (Without f) \<longrightarrow> input m_router name data m = Inr (True, f m)) \<and>
   (\<forall>g. m_router name = Some (With g) \<longrightarrow> input m_router name data m = Inr (True, g data m)) \<and>
   input m_router name data m \<noteq> Inl Assertion_failed"
  by (auto simp: input_def invoke_def has_action_def Let_def split: option.splits entry.splits)

theorem input_dispatch_witness:
  "\<not> has_action demo_router ''zoom'' \<and>
   input demo_router ''zoom'' ''up'' demo_module = Inr (False, demo_module) \<and>
   demo_router ''click'' = Some (Without click) \<and>
   input demo_router ''click'' ''up'' demo_module = Inr (True, demo_module\<lparr>impl := 1\<rparr>) \<and>
   demo_router ''scroll'' = Some (With scroll) \<and>
   input demo_router ''scroll'' ''up'' demo_module = Inr (True, demo_module\<lparr>impl := 2\<rparr>)"
  using input_dispatch [of demo_router "''zoom''" "''up''" demo_module]
    input_dispatch [of demo_router "''click''" "''up''" demo_module]
    input_dispatch [of demo_router "''scroll''" "''up''" demo_module]
  by (simp add: demo_router_simps has_action_def click_def scroll_def demo_module_def)

text \<open>
  Claim C8, at the input \<^verbatim>\<open>invoke("click", "payload")\<close> on a router that holds \<^verbatim>\<open>click\<close> without
  data. The callback runs once (the counter of the module goes from 0 to 1) and the call does
  not fail, but the branch for the payload that is thrown away is empty in the source: the
  record of effects is as empty after the call as it was before, no diagnostic has been logged.
\<close>

theorem invoke_payload_without_diagnostic:
  "invoke demo_router ''click'' ''payload'' demo_module = Inr (demo_module\<lparr>impl := 1\<rparr>) \<and>
   events (demo_module\<lparr>impl := 1\<rparr>) = []"
  by (simp add: invoke_def demo_router_simps click_def demo_module_def)

subsection \<open>The template renderer\<close>

lemma get_output_cond_chars:
  "get_output_cond v = Some (start, end) \<Longrightarrow> v ! start = CHR ''<'' \<and> v ! end = CHR ''>''"
  unfolding get_output_cond_def by (auto split: option.splits dest!: str_find_Some)

lemma tag_nonempty:
  assumes "get_output_cond v = Some (start, end)"
  shows "take (Suc (end - start)) (drop start v) \<noteq> []"
    and "hd (take (Suc (end - start)) (drop start v)) = CHR ''<''"
    and "last (take (Suc (end - start)) (drop start v)) = CHR ''>''"
proof -
  from assms have le: "start \<le> end" "end < length v" and ch: "v ! start = CHR ''<''" "v ! end = CHR ''>''"
    using get_output_cond_Some get_output_cond_chars by blast+
  show ne: "take (Suc (end - start)) (drop start v) \<noteq> []" using le by auto
  show "hd (take (Suc (end - start)) (drop start v)) = CHR ''<''"
    using le ch by (simp add: hd_drop_conv_nth)
  have "length (take (Suc (end - start)) (drop start v)) = Suc (end - start)" using le by auto
  then have "last (take (Suc (end - start)) (drop start v)) = (take (Suc (end - start)) (drop start v)) ! (end - start)"
    by (simp add: last_conv_nth[OF ne])
  also have "\<dots> = v ! end" using le by simp
  finally show "last (take (Suc (end - start)) (drop start v)) = CHR ''>''" using ch by simp
qed

lemma get_output_literal_eq:
  assumes "\<not> fake_no_tag_built l" "0 < start" "start \<le> length (value' l)"
  shows "get_output_literal start (l, b) =
           (l\<lparr>value' := drop start (value' l)\<rparr>, b @ literal_calls (no_tag_built l) (take start (value' l)))"
  using assms unfolding get_output_literal_def literal_calls_def substr_def erase_def
  by (cases l) (auto simp: Let_def)

lemma get_output_tag_eq:
  assumes "\<not> fake_no_tag_built l"
  shows "get_output_tag bld fmt tag (l, b) =
           (l\<lparr>no_tag_built := no_tag_built l \<and> \<not> bld tag, tag_built := bld tag\<rparr>,
            b @ tag_calls bld fmt (no_tag_built l) tag)"
  using assms unfolding get_output_tag_def tag_calls_def
  by (cases l) (simp add: Let_def)

lemma get_output_body_eq:
  assumes c: "get_output_cond (value' l) = Some (start, end)" and nf: "\<not> fake_no_tag_built l"
  shows "get_output_body bld fmt start end (l, b) =
           (l\<lparr>no_tag_built := no_tag_built l \<and> \<not> bld (take (Suc (end - start)) (drop start (value' l))),
              tag_built := bld (take (Suc (end - start)) (drop start (value' l))),
              value' := drop (Suc end) (value' l)\<rparr>,
            b @ literal_calls (no_tag_built l) (take start (value' l))
              @ tag_calls bld fmt (no_tag_built l) (take (Suc (end - start)) (drop start (value' l))))"
proof -
  from c have le: "start \<le> end" "end < length (value' l)"
    using get_output_cond_Some by blast+
  note tg = tag_nonempty[OF c]
  show ?thesis
  proof (cases "start > 0")
    case True
    have lit: "get_output_literal start (l, b) =
           (l\<lparr>value' := drop start (value' l)\<rparr>, b @ literal_calls (no_tag_built l) (take start (value' l)))"
      using get_output_literal_eq[OF nf True] le by simp
    show ?thesis using True le tg nf
      unfolding get_output_body_def lit
      by (simp add: Let_def substr_def erase_def get_output_tag_eq)
  next
    case False
    then show ?thesis using le tg nf
      unfolding get_output_body_def
      by (simp add: Let_def substr_def erase_def get_output_tag_eq literal_calls_def)
  qed
qed

lemma get_output_loop_spans:
  "\<not> fake_no_tag_built (fst lb) \<Longrightarrow>
   \<exists>spans. snd (get_output_loop bld fmt lb) = snd lb @ spans_calls bld fmt (no_tag_built (fst lb)) spans"
proof (induction bld fmt lb rule: get_output_loop.induct)
  case (1 bld fmt lb)
  obtain l b where lb: "lb = (l, b)" by (cases lb)
  show ?case
  proof (cases "get_output_cond (value' (fst lb))")
    case None
    then have "snd (get_output_loop bld fmt lb) = snd lb @ spans_calls bld fmt (no_tag_built (fst lb)) []"
      by (simp add: get_output_loop.simps)
    then show ?thesis by blast
  next
    case (Some se)
    obtain start "end" where se: "se = (start, end)" by (cases se)
    let ?tag = "take (Suc (end - start)) (drop start (value' l))"
    let ?lit = "take start (value' l)"
    from Some se lb have c: "get_output_cond (value' l) = Some (start, end)" by simp
    from "1.prems" lb have nf: "\<not> fake_no_tag_built l" by simp
    note body = get_output_body_eq [OF c nf, of bld fmt b]
    have "\<exists>spans. snd (get_output_loop bld fmt (get_output_body bld fmt start end lb)) =
            snd (get_output_body bld fmt start end lb) @
            spans_calls bld fmt (no_tag_built (fst (get_output_body bld fmt start end lb))) spans"
      using "1.IH" [OF Some se [symmetric]] nf unfolding lb body by simp
    then obtain spans where
      "snd (get_output_loop bld fmt (get_output_body bld fmt start end lb)) =
         b @ spans_calls bld fmt (no_tag_built l) ((?lit, ?tag) # spans)"
      unfolding lb body by auto
    moreover have "get_output_loop bld fmt lb = get_output_loop bld fmt (get_output_body bld fmt start end lb)"
      using Some se by (subst get_output_loop.simps) simp
    ultimately show ?thesis unfolding lb by (metis snd_conv fst_conv)
  qed
qed

lemma literal_calls_no_build: "Impl_build t \<notin> set (literal_calls ntb lit)"
  by (simp add: literal_calls_def)

lemma split_first_build:
  assumes "\<forall>t. Impl_build t \<notin> set A" "A @ Impl_build a # rest = pre @ Impl_build t # post"
  shows "(pre = A \<and> t = a \<and> post = rest) \<or> (\<exists>pre2. pre = A @ Impl_build a # pre2 \<and> rest = pre2 @ Impl_build t # post)"
  using assms
proof (induction A arbitrary: pre)
  case Nil
  then show ?case by (cases pre) auto
next
  case (Cons x A)
  then show ?case by (cases pre) auto
qed

lemma split_prefix_build:
  assumes "\<forall>t. Impl_build t \<notin> set B" "B @ rest = pre @ Impl_build t # post"
  shows "\<exists>pre2. pre = B @ pre2 \<and> rest = pre2 @ Impl_build t # post"
  using assms
proof (induction B arbitrary: pre)
  case Nil
  then show ?case by simp
next
  case (Cons x B)
  then show ?case by (cases pre) auto
qed


lemma succeeded_append: "succeeded bld (xs @ ys) \<longleftrightarrow> succeeded bld xs \<or> succeeded bld ys"
  by (auto simp: succeeded_def list_ex_iff)

lemma succeeded_Cons_build: "succeeded bld (Impl_build t # xs) \<longleftrightarrow> bld t \<or> succeeded bld xs"
  by (simp add: succeeded_def)

lemma succeeded_no_build: "\<forall>t. Impl_build t \<notin> set xs \<Longrightarrow> \<not> succeeded bld xs"
  by (auto simp: succeeded_def list_ex_iff split: builder_call.splits)

lemma spans_calls_tag:
  assumes "spans_calls bld fmt ntb spans @ tail = pre @ Impl_build t # post"
    and "\<forall>t. Impl_build t \<notin> set tail"
    and "\<not> ntb \<or> succeeded bld pre"
  shows "(\<exists>pre'. pre = pre' @ [Space (spacing fmt)]) \<and>
         (\<not> bld t \<longrightarrow> (\<exists>post'. post = Remove_trailing_space (max 1 (spacing fmt)) # post'))"
  using assms
proof (induction spans arbitrary: ntb pre)
  case Nil
  then show ?case by (metis append_Nil in_set_conv_decomp spans_calls.simps(1))
next
  case (Cons sp spans)
  obtain lit tag where sp: "sp = (lit, tag)" by (cases sp)
  let ?A = "literal_calls ntb lit @ (if ntb then [] else [Space (spacing fmt)])"
  let ?B = "if \<not> bld tag \<and> \<not> ntb then [Remove_trailing_space (max 1 (spacing fmt))] else []"
  let ?rest = "spans_calls bld fmt (ntb \<and> \<not> bld tag) spans @ tail"
  have nbA: "\<forall>t. Impl_build t \<notin> set ?A" by (simp add: literal_calls_no_build)
  have nbB: "\<forall>t. Impl_build t \<notin> set ?B" by simp
  from Cons.prems(1) have eq: "?A @ Impl_build tag # (?B @ ?rest) = pre @ Impl_build t # post"
    by (simp add: sp tag_calls_def)
  from split_first_build [OF nbA eq]
  consider (here) "pre = ?A" "t = tag" "post = ?B @ ?rest"
    | (later) pre2 where "pre = ?A @ Impl_build tag # pre2" "?B @ ?rest = pre2 @ Impl_build t # post"
    by blast
  then show ?case
  proof cases
    case here
    from here(1) nbA have "\<not> succeeded bld pre" by (simp add: succeeded_no_build)
    with Cons.prems(3) have "\<not> ntb" by simp
    with here show ?thesis by simp
  next
    case later
    from split_prefix_build [OF nbB later(2)]
    obtain pre3 where p3: "pre2 = ?B @ pre3" "?rest = pre3 @ Impl_build t # post" by blast
    have "\<not> (ntb \<and> \<not> bld tag) \<or> succeeded bld pre3"
      using Cons.prems(3) nbA nbB unfolding later(1) p3(1)
      by (auto simp: succeeded_append succeeded_Cons_build succeeded_no_build)
    from Cons.IH [OF p3(2) Cons.prems(2) this]
    obtain pre' where "pre3 = pre' @ [Space (spacing fmt)]"
      and "\<not> bld t \<longrightarrow> (\<exists>post'. post = Remove_trailing_space (max 1 (spacing fmt)) # post')"
      by blast
    then show ?thesis unfolding later(1) p3(1) by simp
  qed
qed


lemma spans_calls_adjacent:
  assumes "spans_calls bld fmt ntb spans @ tail = pre @ Impl_build t1 # mid @ Impl_build t2 # post"
    and "\<forall>t. Impl_build t \<notin> set tail"
    and "bld t1"
    and "\<forall>x. Node x \<notin> set mid" and "\<forall>t. Impl_build t \<notin> set mid"
  shows "mid = [Space (spacing fmt)]"
  using assms(1)
proof (induction spans arbitrary: ntb pre)
  case Nil
  with assms(2) show ?case by (metis append_Nil in_set_conv_decomp spans_calls.simps(1))
next
  case (Cons sp spans)
  obtain lit tag where sp: "sp = (lit, tag)" by (cases sp)
  let ?A = "literal_calls ntb lit @ (if ntb then [] else [Space (spacing fmt)])"
  let ?B = "if \<not> bld tag \<and> \<not> ntb then [Remove_trailing_space (max 1 (spacing fmt))] else []"
  let ?rest = "spans_calls bld fmt (ntb \<and> \<not> bld tag) spans @ tail"
  have nbA: "\<forall>t. Impl_build t \<notin> set ?A" by (simp add: literal_calls_no_build)
  have nbB: "\<forall>t. Impl_build t \<notin> set ?B" by simp
  from Cons.prems(1) have eq: "?A @ Impl_build tag # (?B @ ?rest) = pre @ Impl_build t1 # (mid @ Impl_build t2 # post)"
    by (simp add: sp tag_calls_def)
  from split_first_build [OF nbA eq]
  consider (here) "pre = ?A" "t1 = tag" "mid @ Impl_build t2 # post = ?B @ ?rest"
    | (later) pre2 where "pre = ?A @ Impl_build tag # pre2"
        "?B @ ?rest = pre2 @ Impl_build t1 # (mid @ Impl_build t2 # post)"
    by blast
  then show ?case
  proof cases
    case here
    with assms(3) have nx: "spans_calls bld fmt False spans @ tail = mid @ Impl_build t2 # post"
      by simp
    show ?thesis
    proof (cases spans)
      case Nil
      with nx assms(2) show ?thesis by (metis append_Nil in_set_conv_decomp spans_calls.simps(1))
    next
      case (Cons sp' spans')
      obtain lit' tag' where sp': "sp' = (lit', tag')" by (cases sp')
      let ?A' = "literal_calls False lit' @ [Space (spacing fmt)]"
      let ?rest' = "(if \<not> bld tag' then [Remove_trailing_space (max 1 (spacing fmt))] else []) @
                    spans_calls bld fmt (\<not> bld tag' \<and> False) spans' @ tail"
      have nbA': "\<forall>t. Impl_build t \<notin> set ?A'" by (simp add: literal_calls_no_build)
      from nx have "?A' @ Impl_build tag' # ?rest' = mid @ Impl_build t2 # post"
        by (simp add: Cons sp' tag_calls_def)
      from split_first_build [OF nbA' this] assms(5)
      have "mid = ?A'" by auto
      with assms(4) show ?thesis by (auto simp: literal_calls_def split: if_splits)
    qed
  next
    case later
    from split_prefix_build [OF nbB later(2)]
    obtain pre3 where "?rest = pre3 @ Impl_build t1 # mid @ Impl_build t2 # post" by blast
    from Cons.IH [OF this] show ?thesis .
  qed
qed


lemma get_output_calls_spans:
  "\<exists>spans. get_output_calls bld fmt b =
     b @ spans_calls bld fmt True spans @
       (let rem = value' (fst (get_output_loop bld fmt (get_output_init fmt, b)))
        in if rem \<noteq> [] then [Append rem] else [])"
proof -
  from get_output_loop_spans [of "(get_output_init fmt, b)" bld fmt]
  obtain spans where
    "snd (get_output_loop bld fmt (get_output_init fmt, b)) = b @ spans_calls bld fmt True spans"
    by (auto simp: get_output_init_def)
  then show ?thesis
    unfolding get_output_calls_def by (auto simp: Let_def case_prod_beta)
qed

lemma get_output_calls_spans_tail:
  "\<exists>spans tail. get_output_calls bld fmt b = b @ spans_calls bld fmt True spans @ tail \<and>
     (\<forall>t. Impl_build t \<notin> set tail)"
proof -
  from get_output_calls_spans [of bld fmt b] obtain spans where
    "get_output_calls bld fmt b =
     b @ spans_calls bld fmt True spans @
       (let rem = value' (fst (get_output_loop bld fmt (get_output_init fmt, b)))
        in if rem \<noteq> [] then [Append rem] else [])" by blast
  moreover have "\<forall>t. Impl_build t \<notin> set
       (let rem = value' (fst (get_output_loop bld fmt (get_output_init fmt, b)))
        in if rem \<noteq> [] then [Append rem] else [])" by (simp add: Let_def)
  ultimately show ?thesis by blast
qed

lemma get_output_calls_tag:
  assumes "get_output_calls bld fmt b = b @ pre @ Impl_build t # post" and "succeeded bld pre"
  shows "(\<exists>pre'. pre = pre' @ [Space (spacing fmt)]) \<and>
         (\<not> bld t \<longrightarrow> (\<exists>post'. post = Remove_trailing_space (max 1 (spacing fmt)) # post'))"
proof -
  from get_output_calls_spans_tail [of bld fmt b] obtain spans tail where
    c: "get_output_calls bld fmt b = b @ spans_calls bld fmt True spans @ tail"
    and t: "\<forall>t. Impl_build t \<notin> set tail"
    by blast
  from c assms(1) have "spans_calls bld fmt True spans @ tail = pre @ Impl_build t # post" by simp
  from spans_calls_tag [OF this t] assms(2) show ?thesis by blast
qed

lemma get_output_calls_adjacent:
  assumes "get_output_calls bld fmt b = b @ pre @ Impl_build t1 # mid @ Impl_build t2 # post"
    and "bld t1" and "\<forall>x. Node x \<notin> set mid" and "\<forall>t. Impl_build t \<notin> set mid"
  shows "mid = [Space (spacing fmt)]"
proof -
  from get_output_calls_spans_tail [of bld fmt b] obtain spans tail where
    c: "get_output_calls bld fmt b = b @ spans_calls bld fmt True spans @ tail"
    and t: "\<forall>t. Impl_build t \<notin> set tail"
    by blast
  from c assms(1) have "spans_calls bld fmt True spans @ tail = pre @ Impl_build t1 # mid @ Impl_build t2 # post"
    by simp
  from spans_calls_adjacent [OF this t assms(2-4)] show ?thesis .
qed

subsection \<open>The text of the builder\<close>

lemma trailing_blanks_spacer:
  "trailing_blanks (s @ replicate n (CHR '' '')) = trailing_blanks s + n"
proof -
  have "takeWhile (\<lambda>x. x = CHR '' '') (replicate n (CHR '' '') @ rev s) =
        replicate n (CHR '' '') @ takeWhile (\<lambda>x. x = CHR '' '') (rev s)"
    by (rule takeWhile_append2) simp
  then show ?thesis by (simp add: trailing_blanks_def)
qed

lemma takeWhile_drop_le:
  "d \<le> length (takeWhile P xs) \<Longrightarrow> takeWhile P (drop d xs) = drop d (takeWhile P xs)"
proof (induction xs arbitrary: d)
  case Nil
  then show ?case by simp
next
  case (Cons x xs)
  then show ?case by (cases d) (auto split: if_splits)
qed

lemma trailing_blanks_le: "trailing_blanks s \<le> length s"
  unfolding trailing_blanks_def by (metis length_rev length_takeWhile_le)

lemma trailing_blanks_remove:
  "trailing_blanks (remove_trailing_space g s) = min g (trailing_blanks s)"
proof -
  let ?k = "trailing_blanks s"
  let ?P = "\<lambda>x. x = CHR '' ''"
  have k: "?k \<le> length s" by (rule trailing_blanks_le)
  have "rev (take (length s - (?k - g)) s) = drop (?k - g) (rev s)"
    using k by (simp add: rev_take)
  moreover have "?k - g \<le> length (takeWhile ?P (rev s))" by (simp add: trailing_blanks_def)
  ultimately have "takeWhile ?P (rev (remove_trailing_space g s)) = drop (?k - g) (takeWhile ?P (rev s))"
    by (simp add: remove_trailing_space_def takeWhile_drop_le)
  then show ?thesis by (auto simp: trailing_blanks_def)
qed

lemma builder_output_append:
  "builder_output bt ct (b @ c) = foldl (\<lambda>s c. builder_apply bt ct c s) (builder_output bt ct b) c"
  by (simp add: builder_output_def)

subsection \<open>Renders of the instances\<close>

lemma literal_first_calls:
  "get_output_calls (builds tags_none) literal_first_format [] =
     [Node ''x'', Impl_build ''<a>'', Impl_build ''<b>'']"
  by code_simp

lemma literal_first_flag:
  "no_tag_built (fst (get_output_loop (builds tags_none) literal_first_format
      (get_output_init literal_first_format, [])))"
  by code_simp

lemma adjacent_calls:
  "get_output_calls (builds tags_XY) adjacent_format [] =
     [Impl_build ''<a>'', Space 2, Impl_build ''<b>'']"
  by code_simp

lemma failing_calls:
  "get_output_calls (builds tags_XY) failing_format [] =
     [Impl_build ''<a>'', Space 2, Impl_build ''<c>'', Remove_trailing_space 2, Space 2,
      Impl_build ''<b>'']"
  by code_simp

lemma failing_output:
  "builder_output tags_XY ct
     [Impl_build ''<a>'', Space 2, Impl_build ''<c>'', Remove_trailing_space 2] = ''X  ''"
  by (simp add: builder_output_def tags_XY_def remove_trailing_space_def trailing_blanks_def
      numeral_2_eq_2)


subsection \<open>Spacing between tags\<close>

text \<open>
  Claim C1, as it is written, fails on the format \<^verbatim>\<open>x<a><b>\<close> with a module that builds no
  tag. The literal text \<^verbatim>\<open>x\<close> is sent to the builder, and after it neither tag gets a spacer:
  the render makes no call of \<^verbatim>\<open>space\<close> at all, and \<^verbatim>\<open>no_tag_built\<close> is still true when the
  loop ends. The assignment in the branch of the literal text, \<^verbatim>\<open>fake_no_tag_built = false\<close>,
  writes the value that the flag already has.
\<close>

theorem literal_text_keeps_no_tag_built:
  "get_output_calls (builds tags_none) literal_first_format [] =
     [Node ''x'', Impl_build ''<a>'', Impl_build ''<b>''] \<and>
   no_tag_built (fst (get_output_loop (builds tags_none) literal_first_format
      (get_output_init literal_first_format, [])))"
  using literal_first_calls literal_first_flag by simp

text \<open>
  Claim C1, amended: what clears the state is the first tag that builds. In every render, a
  tag that comes after a tag that has built (\<open>succeeded\<close> on the calls before it) is handed
  to \<^verbatim>\<open>Impl::build\<close> right after a call \<^verbatim>\<open>space(format->spacing)\<close>, and this holds for every later
  tag of the render, whether the tags in between build or fail.
\<close>

theorem spacer_after_built_tag:
  assumes "get_output_calls bld fmt b = b @ pre @ Impl_build t # post" and "succeeded bld pre"
  shows "\<exists>pre'. pre = pre' @ [Space (spacing fmt)]"
  using get_output_calls_tag [OF assms] by blast

theorem spacer_after_built_tag_witness:
  "get_output_calls (builds tags_XY) demo_format [] =
     [] @ [Impl_build ''<a>'', Node '' text '', Space 1] @ Impl_build ''<b>'' # [] \<and>
   succeeded (builds tags_XY) [Impl_build ''<a>'', Node '' text '', Space 1] \<and>
   (\<exists>pre'. [Impl_build ''<a>'', Node '' text '', Space 1] = pre' @ [Space (spacing demo_format)])"
proof -
  have 1: "get_output_calls (builds tags_XY) demo_format [] =
     [] @ [Impl_build ''<a>'', Node '' text '', Space 1] @ Impl_build ''<b>'' # []"
    using demo_calls by simp
  have 2: "succeeded (builds tags_XY) [Impl_build ''<a>'', Node '' text '', Space 1]"
    by (simp add: succeeded_def builds_def tags_XY_def)
  from spacer_after_built_tag [OF 1 2] 1 2 show ?thesis by blast
qed

text \<open>
  Claim C3. In a render with spacing \<open>s \<ge> 1\<close>, take two tags that both build, the second
  being the next tag after the first (no call of \<^verbatim>\<open>Impl::build\<close> between them) with no literal
  text between them (no call of \<^verbatim>\<open>node\<close> between them). Then the calls on the builder between
  the two builds are exactly one \<^verbatim>\<open>space(s)\<close>, and the text of the builder after the second
  build is the text before the first, the output of the first tag, \<open>s\<close> blanks and the output
  of the second.
\<close>

theorem consecutive_tags_gap:
  assumes "1 \<le> spacing fmt"
    and "get_output_calls (builds bt) fmt b = b @ pre @ Impl_build t1 # mid @ Impl_build t2 # post"
    and "bt t1 = Some x1" and "bt t2 = Some x2"
    and "\<forall>x. Node x \<notin> set mid" and "\<forall>t. Impl_build t \<notin> set mid"
  shows "mid = [Space (spacing fmt)] \<and>
         builder_output bt ct (b @ pre @ Impl_build t1 # mid @ [Impl_build t2]) =
           builder_output bt ct (b @ pre) @ x1 @ replicate (spacing fmt) (CHR '' '') @ x2"
proof -
  from assms(3) have "builds bt t1" by (simp add: builds_def)
  from get_output_calls_adjacent [OF assms(2) this assms(5,6)]
  have mid: "mid = [Space (spacing fmt)]" .
  have "builder_output bt ct ((b @ pre) @ [Impl_build t1, Space (spacing fmt), Impl_build t2]) =
          builder_output bt ct (b @ pre) @ x1 @ replicate (spacing fmt) (CHR '' '') @ x2"
    unfolding builder_output_append using assms(3,4) by simp
  with mid show ?thesis by simp
qed

theorem consecutive_tags_gap_witness:
  "1 \<le> spacing adjacent_format \<and>
   get_output_calls (builds tags_XY) adjacent_format [] =
     [] @ [] @ Impl_build ''<a>'' # [Space 2] @ Impl_build ''<b>'' # [] \<and>
   tags_XY ''<a>'' = Some ''X'' \<and> tags_XY ''<b>'' = Some ''Y'' \<and>
   [Space 2] = [Space (spacing adjacent_format)] \<and>
   builder_output tags_XY (control demo_ops) ([] @ [] @ Impl_build ''<a>'' # [Space 2] @ [Impl_build ''<b>'']) =
     ''X  Y''"
proof -
  have 1: "1 \<le> spacing adjacent_format" by (simp add: adjacent_format_def)
  have 2: "get_output_calls (builds tags_XY) adjacent_format [] =
     [] @ [] @ Impl_build ''<a>'' # [Space 2] @ Impl_build ''<b>'' # []"
    using adjacent_calls by simp
  have 3: "tags_XY ''<a>'' = Some ''X''" and 4: "tags_XY ''<b>'' = Some ''Y''"
    by (simp_all add: tags_XY_def)
  have 5: "\<forall>x. Node x \<notin> set [Space 2]" and 6: "\<forall>t. Impl_build t \<notin> set [Space 2]"
    by simp_all
  from consecutive_tags_gap [OF 1 2 3 4 5 6, of "control demo_ops"] 1 2 3 4
  show ?thesis by (simp add: adjacent_format_def builder_output_Nil numeral_2_eq_2)
qed

text \<open>
  Claim C4. In a render, a tag that fails after some tag has built is handed to
  \<^verbatim>\<open>Impl::build\<close> right after \<^verbatim>\<open>space(format->spacing)\<close>, and the call that follows the failed
  build is \<^verbatim>\<open>remove_trailing_space(mingap)\<close> with \<open>mingap = max 1 spacing\<close>. On the text of the
  builder the three calls leave the text before the spacer, plus the spacer, cut down to at
  most \<open>mingap\<close> trailing blanks: the number of trailing blanks afterwards is the smaller of
  \<open>mingap\<close> and what was there with the spacer, so it never exceeds \<open>mingap\<close>, however many
  tags fail in a row, and the removal never takes it below \<open>mingap\<close>.
\<close>

theorem failed_tag_removes_spacer:
  assumes "get_output_calls (builds bt) fmt b = b @ pre @ Impl_build t # post"
    and "succeeded (builds bt) pre" and "bt t = None"
  shows "\<exists>pre' post'.
           pre = pre' @ [Space (spacing fmt)] \<and>
           post = Remove_trailing_space (max 1 (spacing fmt)) # post' \<and>
           builder_output bt ct (b @ pre @ [Impl_build t, Remove_trailing_space (max 1 (spacing fmt))]) =
             remove_trailing_space (max 1 (spacing fmt))
               (builder_output bt ct (b @ pre') @ replicate (spacing fmt) (CHR '' '')) \<and>
           trailing_blanks
               (builder_output bt ct (b @ pre @ [Impl_build t, Remove_trailing_space (max 1 (spacing fmt))])) =
             min (max 1 (spacing fmt)) (trailing_blanks (builder_output bt ct (b @ pre')) + spacing fmt)"
proof -
  from assms(3) have "\<not> builds bt t" by (simp add: builds_def)
  with get_output_calls_tag [OF assms(1,2)]
  obtain pre' post' where pre: "pre = pre' @ [Space (spacing fmt)]"
    and post: "post = Remove_trailing_space (max 1 (spacing fmt)) # post'"
    by blast
  have out: "builder_output bt ct
               ((b @ pre') @ [Space (spacing fmt), Impl_build t, Remove_trailing_space (max 1 (spacing fmt))]) =
             remove_trailing_space (max 1 (spacing fmt))
               (builder_output bt ct (b @ pre') @ replicate (spacing fmt) (CHR '' ''))"
    unfolding builder_output_append using assms(3) by simp
  have "trailing_blanks (remove_trailing_space (max 1 (spacing fmt))
               (builder_output bt ct (b @ pre') @ replicate (spacing fmt) (CHR '' ''))) =
             min (max 1 (spacing fmt)) (trailing_blanks (builder_output bt ct (b @ pre')) + spacing fmt)"
    by (simp only: trailing_blanks_remove trailing_blanks_spacer)
  with pre post out show ?thesis by simp
qed

theorem failed_tag_removes_spacer_witness:
  "get_output_calls (builds tags_XY) failing_format [] =
     [] @ [Impl_build ''<a>'', Space 2] @ Impl_build ''<c>'' #
       [Remove_trailing_space 2, Space 2, Impl_build ''<b>''] \<and>
   succeeded (builds tags_XY) [Impl_build ''<a>'', Space 2] \<and> tags_XY ''<c>'' = None \<and>
   (\<exists>pre' post'.
      [Impl_build ''<a>'', Space 2] = pre' @ [Space (spacing failing_format)] \<and>
      [Remove_trailing_space 2, Space 2, Impl_build ''<b>''] =
        Remove_trailing_space (max 1 (spacing failing_format)) # post') \<and>
   builder_output tags_XY (control demo_ops)
     [Impl_build ''<a>'', Space 2, Impl_build ''<c>'', Remove_trailing_space 2] = ''X  ''"
proof -
  have 1: "get_output_calls (builds tags_XY) failing_format [] =
     [] @ [Impl_build ''<a>'', Space 2] @ Impl_build ''<c>'' #
       [Remove_trailing_space 2, Space 2, Impl_build ''<b>'']"
    using failing_calls by simp
  have 2: "succeeded (builds tags_XY) [Impl_build ''<a>'', Space 2]"
    by (simp add: succeeded_def builds_def tags_XY_def)
  have 3: "tags_XY ''<c>'' = None" by (simp add: tags_XY_def)
  from failed_tag_removes_spacer [OF 1 2 3, of "control demo_ops"] 1 2 3 failing_output
  show ?thesis by blast
qed

subsection \<open>A template that ends inside a tag\<close>








end
